theory Spec2Isabelle
  imports Complex_Main
begin

section \<open>JavaScript numbers\<close>

text \<open>
  The sampler and the evaluator of \<^verbatim>\<open>graphUtils\<close> work on JavaScript numbers, where
  \<^verbatim>\<open>NaN\<close> and the two infinities are ordinary values that the code tests for
  (\<^verbatim>\<open>isNaN(y)\<close>, \<^verbatim>\<open>x <= max\<close> with \<^verbatim>\<open>x\<close> not a number). They are kept as constructors.
  A finite number is the real it denotes, and the arithmetic rounds as IEEE 754 double
  precision does: the exact result goes to the nearest double, a tie to the one with an
  even significand, and beyond the largest double to an infinity. The sign of zero is
  not part of the model.
\<close>

datatype jsnum = NaN | NInf | Fin real | PInf

definition js_inf :: "real \<Rightarrow> jsnum" where
  \<comment> \<open>the infinity of a given sign; no sign gives \<^verbatim>\<open>NaN\<close>\<close>
  "js_inf s = (if s > 0 then PInf else if s < 0 then NInf else NaN)"

subsection \<open>Rounding to double precision\<close>

text \<open>Round to the nearest integer, a tie to the even one.\<close>

definition rne :: "real \<Rightarrow> int" where
  "rne q =
     (let f = \<lfloor>q\<rfloor> in
      if q - of_int f < 1 / 2 then f
      else if 1 / 2 < q - of_int f then f + 1
      else if even f then f else f + 1)"

text \<open>
  The exponent of the binade of \<open>r\<close>, not below that of the smallest normal number,
  and the distance between neighbouring doubles there (53 bits of significand).
\<close>

definition expo :: "real \<Rightarrow> int" where
  "expo r = max \<lfloor>log 2 \<bar>r\<bar>\<rfloor> (- 1022)"

definition ulp :: "real \<Rightarrow> real" where
  "ulp r = 2 powr of_int (expo r - 52)"

definition fl_mag :: "real \<Rightarrow> real" where
  \<comment> \<open>a positive real rounded to a multiple of the spacing of its binade\<close>
  "fl_mag r = of_int (rne (r / ulp r)) * ulp r"

definition fl :: "real \<Rightarrow> jsnum" where
  "fl r =
     (if r = 0 then Fin 0
      else if 2 ^ 1024 \<le> fl_mag \<bar>r\<bar> then js_inf (sgn r)
      else Fin (sgn r * fl_mag \<bar>r\<bar>))"

definition js_double :: "jsnum \<Rightarrow> bool" where
  \<comment> \<open>a value that a JavaScript number can have: a finite one is a double\<close>
  "js_double x = (case x of Fin r \<Rightarrow> fl r = Fin r | _ \<Rightarrow> True)"

subsection \<open>Arithmetic and comparison\<close>

fun js_neg :: "jsnum \<Rightarrow> jsnum" where
  "js_neg NaN = NaN"
| "js_neg NInf = PInf"
| "js_neg (Fin a) = Fin (- a)"
| "js_neg PInf = NInf"

fun js_add :: "jsnum \<Rightarrow> jsnum \<Rightarrow> jsnum" where
  "js_add NaN _ = NaN"
| "js_add _ NaN = NaN"
| "js_add (Fin a) (Fin b) = fl (a + b)"
| "js_add (Fin _) b = b"
| "js_add a (Fin _) = a"
| "js_add PInf PInf = PInf"
| "js_add NInf NInf = NInf"
| "js_add PInf NInf = NaN"
| "js_add NInf PInf = NaN"

definition js_sub :: "jsnum \<Rightarrow> jsnum \<Rightarrow> jsnum" where
  "js_sub a b = js_add a (js_neg b)"

fun js_sgn :: "jsnum \<Rightarrow> real" where
  "js_sgn NaN = 0"
| "js_sgn NInf = - 1"
| "js_sgn (Fin a) = sgn a"
| "js_sgn PInf = 1"

fun js_mul :: "jsnum \<Rightarrow> jsnum \<Rightarrow> jsnum" where
  "js_mul NaN _ = NaN"
| "js_mul _ NaN = NaN"
| "js_mul (Fin a) (Fin b) = fl (a * b)"
| "js_mul a b = js_inf (js_sgn a * js_sgn b)"

fun js_div :: "jsnum \<Rightarrow> jsnum \<Rightarrow> jsnum" where
  "js_div NaN _ = NaN"
| "js_div _ NaN = NaN"
| "js_div (Fin a) (Fin b) = (if b = 0 then js_inf (sgn a) else fl (a / b))"
| "js_div (Fin _) _ = Fin 0"
| "js_div a (Fin b) = js_inf (js_sgn a * (if b < 0 then - 1 else 1))"
| "js_div _ _ = NaN"

fun js_abs :: "jsnum \<Rightarrow> jsnum" where
  "js_abs NaN = NaN"
| "js_abs NInf = PInf"
| "js_abs (Fin a) = Fin \<bar>a\<bar>"
| "js_abs PInf = PInf"

fun js_isNaN :: "jsnum \<Rightarrow> bool" where
  "js_isNaN NaN = True"
| "js_isNaN _ = False"

fun js_lt :: "jsnum \<Rightarrow> jsnum \<Rightarrow> bool" where
  "js_lt NaN _ = False"
| "js_lt _ NaN = False"
| "js_lt (Fin a) (Fin b) = (a < b)"
| "js_lt PInf _ = False"
| "js_lt _ NInf = False"
| "js_lt _ _ = True"

definition js_gt :: "jsnum \<Rightarrow> jsnum \<Rightarrow> bool" where
  "js_gt a b = js_lt b a"

definition js_le :: "jsnum \<Rightarrow> jsnum \<Rightarrow> bool" where
  "js_le a b = (js_lt a b \<or> (a = b \<and> a \<noteq> NaN))"



section \<open>The expression evaluator\<close>

text \<open>
  \<^verbatim>\<open>graphUtils\<close> hands every expression to the mathjs library, which is not part of the
  repository. The library is a parameter of the model: \<^verbatim>\<open>math.parse(e).compile()\<close>
  either throws or yields a compiled expression, and \<^verbatim>\<open>.evaluate({x})\<close> on that either
  throws or yields a value. Values are restricted to numbers, as the documentation of
  \<^verbatim>\<open>evaluateExpression\<close> has it (\<^verbatim>\<open>@returns {number}\<close>).
\<close>

datatype exn = Error (message: string)

type_synonym compiled = "jsnum \<Rightarrow> exn + jsnum"
type_synonym mathjs = "string \<Rightarrow> exn + compiled"

definition try_catch :: "exn + 'a \<Rightarrow> (exn \<Rightarrow> exn + 'a) \<Rightarrow> exn + 'a" where
  "try_catch body handler = (case body of Inl e \<Rightarrow> handler e | Inr v \<Rightarrow> Inr v)"

text \<open>
  \<^verbatim>\<open>
  export const evaluateExpression = (expression, x) => {
    try {
      const node = math.parse(expression);
      return node.compile().evaluate({ x });
    } catch (error) {
      console.warn(...);
      return NaN;
    }
  };
  \<close>
\<close>

definition evaluateExpression :: "mathjs \<Rightarrow> string \<Rightarrow> jsnum \<Rightarrow> exn + jsnum" where
  "evaluateExpression math expression x =
     try_catch
       (case math expression of
          Inl e \<Rightarrow> Inl e
        | Inr node \<Rightarrow> node x)
       (\<lambda>error. Inr NaN)"

section \<open>The point sampler\<close>

record point =
  px :: jsnum
  py :: jsnum

definition MAX_POINTS :: nat where
  "MAX_POINTS = 1000"

definition DISCONTINUITY_THRESHOLD :: jsnum where
  "DISCONTINUITY_THRESHOLD = Fin 1000000"

definition is_space :: "char \<Rightarrow> bool" where
  \<comment> \<open>the white space and line terminators of \<^verbatim>\<open>String.prototype.trim\<close> among the 8-bit characters\<close>
  "is_space c = (c \<in> set [CHR 0x09, CHR 0x0A, CHR 0x0B, CHR 0x0C, CHR 0x0D, CHR 0x20, CHR 0xA0])"

definition trim :: "string \<Rightarrow> string" where
  "trim s = rev (dropWhile is_space (rev (dropWhile is_space s)))"

text \<open>
  The body of the \<^verbatim>\<open>for\<close> loop of \<^verbatim>\<open>generatePoints\<close> at one \<^verbatim>\<open>x\<close>, on the two variables
  it updates (\<^verbatim>\<open>points\<close>, \<^verbatim>\<open>previousY\<close>, where \<open>None\<close> is \<^verbatim>\<open>null\<close>). There is no handler
  in \<^verbatim>\<open>generatePoints\<close>: an exception of the evaluator would leave the function.
  \<^verbatim>\<open>
    const y = evaluateExpression(expression, x);
    if (isNaN(y) || Math.abs(y) > DISCONTINUITY_THRESHOLD) {
      previousY = null;
      continue;
    }
    if (previousY !== null && Math.abs(y - previousY) > DISCONTINUITY_THRESHOLD) {
      points.push({ x, y: NaN });
    }
    points.push({ x, y });
    previousY = y;
  \<close>
\<close>

definition gp_body ::
  "mathjs \<Rightarrow> string \<Rightarrow> jsnum \<Rightarrow> point list \<times> jsnum option \<Rightarrow> exn + point list \<times> jsnum option"
where
  "gp_body math expression x st =
     (case st of (points, previousY) \<Rightarrow>
      (case evaluateExpression math expression x of
         Inl e \<Rightarrow> Inl e
       | Inr y \<Rightarrow>
           if js_isNaN y \<or> js_gt (js_abs y) DISCONTINUITY_THRESHOLD then
             Inr (points, None)
           else
             let points1 =
                   (case previousY of
                      None \<Rightarrow> points
                    | Some p \<Rightarrow>
                        if js_gt (js_abs (js_sub y p)) DISCONTINUITY_THRESHOLD
                        then points @ [\<lparr>px = x, py = NaN\<rparr>]
                        else points)
             in Inr (points1 @ [\<lparr>px = x, py = y\<rparr>], Some y)))"

text \<open>
  \<^verbatim>\<open>for (let x = min; x <= max && points.length < MAX_POINTS; x += step) { ... }\<close>
  \<^verbatim>\<open>return points;\<close>
  The loop need not end (a step of zero on an expression that never yields a point),
  so a run that does not return is \<open>None\<close>.
\<close>

partial_function (option) gp_loop ::
  "mathjs \<Rightarrow> string \<Rightarrow> jsnum \<Rightarrow> jsnum \<Rightarrow> jsnum \<Rightarrow> point list \<Rightarrow> jsnum option
     \<Rightarrow> (exn + point list) option"
where
  "gp_loop math expression mx step x points previousY =
     (if js_le x mx \<and> length points < MAX_POINTS then
        (case gp_body math expression x (points, previousY) of
           Inl e \<Rightarrow> Some (Inl e)
         | Inr (points', previousY') \<Rightarrow>
             gp_loop math expression mx step (js_add x step) points' previousY')
      else Some (Inr points))"

definition generatePoints ::
  "mathjs \<Rightarrow> string \<Rightarrow> jsnum \<Rightarrow> jsnum \<Rightarrow> jsnum \<Rightarrow> (exn + point list) option"
where
  "generatePoints math expression mn mx step =
     (if trim expression = [] then Some (Inr [])
      else gp_loop math expression mx step mn [] None)"

subsection \<open>The rules of the sampler on a list of positions\<close>

text \<open>
  What the sampler emits on a list of sample positions, as a function of the list: a
  position whose value is \<^verbatim>\<open>NaN\<close> or beyond the threshold emits nothing and resets the
  previous value; a valid value emits its point, and before it one \<^verbatim>\<open>NaN\<close> point at the
  same position when there is a previous value and it differs from the valid value by
  more than the threshold. \<open>tracked\<close> is the previous value after a list of positions.
\<close>

definition in_range :: "jsnum \<Rightarrow> bool" where
  \<comment> \<open>finite (not \<^verbatim>\<open>NaN\<close>) and of absolute value at most the threshold\<close>
  "in_range y = (case y of Fin r \<Rightarrow> \<bar>r\<bar> \<le> 1000000 | _ \<Rightarrow> False)"

fun emitted :: "(jsnum \<Rightarrow> jsnum) \<Rightarrow> jsnum option \<Rightarrow> jsnum list \<Rightarrow> point list" where
  "emitted f prev [] = []"
| "emitted f prev (x # xs) =
     (if in_range (f x) then
        (case prev of
           None \<Rightarrow> []
         | Some p \<Rightarrow>
             if js_gt (js_abs (js_sub (f x) p)) (Fin 1000000) then [\<lparr>px = x, py = NaN\<rparr>] else [])
        @ \<lparr>px = x, py = f x\<rparr> # emitted f (Some (f x)) xs
      else emitted f None xs)"

fun tracked :: "(jsnum \<Rightarrow> jsnum) \<Rightarrow> jsnum option \<Rightarrow> jsnum list \<Rightarrow> jsnum option" where
  "tracked f prev [] = prev"
| "tracked f prev (x # xs) = tracked f (if in_range (f x) then Some (f x) else None) xs"

definition sample_x :: "jsnum \<Rightarrow> jsnum \<Rightarrow> nat \<Rightarrow> jsnum" where
  \<comment> \<open>the value of the loop variable after \<open>k\<close> increments\<close>
  "sample_x mn step k = ((\<lambda>x. js_add x step) ^^ k) mn"

definition sample_xs :: "jsnum \<Rightarrow> jsnum \<Rightarrow> nat \<Rightarrow> jsnum list" where
  "sample_xs mn step n = map (sample_x mn step) [0..<n]"

definition evaluate_y :: "mathjs \<Rightarrow> string \<Rightarrow> jsnum \<Rightarrow> jsnum" where
  \<comment> \<open>the number that \<^verbatim>\<open>evaluateExpression\<close> hands back\<close>
  "evaluate_y math expression x =
     (case evaluateExpression math expression x of Inl _ \<Rightarrow> NaN | Inr y \<Rightarrow> y)"

section \<open>The derivative estimator\<close>

text \<open>
  \<^verbatim>\<open>
  const calculateDerivative = useCallback((expression, x, h = 0.0001) => {
    try {
      const y1 = evaluateExpression(expression, x - h);
      const y2 = evaluateExpression(expression, x + h);
      return (y2 - y1) / (2 * h);
    } catch (error) {
      console.warn('Derivative calculation failed:', error);
      return null;
    }
  }, []);
  \<close>
  The result \<open>None\<close> is \<^verbatim>\<open>null\<close>.
\<close>

definition calculateDerivative_h ::
  "mathjs \<Rightarrow> string \<Rightarrow> jsnum \<Rightarrow> jsnum \<Rightarrow> exn + jsnum option"
where
  "calculateDerivative_h math expression x h =
     try_catch
       (case evaluateExpression math expression (js_sub x h) of
          Inl e \<Rightarrow> Inl e
        | Inr y1 \<Rightarrow>
            (case evaluateExpression math expression (js_add x h) of
               Inl e \<Rightarrow> Inl e
             | Inr y2 \<Rightarrow> Inr (Some (js_div (js_sub y2 y1) (js_mul (Fin 2) h)))))
       (\<lambda>error. Inr None)"

definition calculateDerivative :: "mathjs \<Rightarrow> string \<Rightarrow> jsnum \<Rightarrow> exn + jsnum option" where
  \<comment> \<open>with the default \<^verbatim>\<open>h = 0.0001\<close>\<close>
  "calculateDerivative math expression x = calculateDerivative_h math expression x (fl (1 / 10000))"

section \<open>The validator\<close>






record validation =
  isValid :: bool
  error :: "string option"



section \<open>The viewport\<close>

text \<open>
  Canvas sizes, bounds, centres and zoom factors are finite numbers throughout
  \<^verbatim>\<open>GraphDisplay\<close> and \<^verbatim>\<open>GraphingTool\<close>; they are reals here, and their arithmetic
  is exact: the rounding of the first section is not applied to pixels and bounds. A
  division by zero is \<open>0\<close> in HOL and not in JavaScript, so every statement below about
  a quotient assumes its divisor is not zero.
\<close>

record vec =
  vx :: real
  vy :: real

record canvas =
  width :: real
  height :: real

record viewport =
  center :: vec
  zoom :: real

record bounds =
  xMin :: real
  xMax :: real
  yMin :: real
  yMax :: real

definition calculateBounds :: "canvas \<Rightarrow> viewport \<Rightarrow> bounds" where
  "calculateBounds sz vp =
     (let aspect = height sz / width sz;
          viewWidth = 20 / zoom vp;
          viewHeight = viewWidth * aspect
      in \<lparr>xMin = vx (center vp) - viewWidth / 2,
          xMax = vx (center vp) + viewWidth / 2,
          yMin = vy (center vp) - viewHeight / 2,
          yMax = vy (center vp) + viewHeight / 2\<rparr>)"

definition scaleX :: "canvas \<Rightarrow> real \<Rightarrow> bounds \<Rightarrow> real" where
  "scaleX sz x b = ((x - xMin b) / (xMax b - xMin b)) * width sz"

definition scaleY :: "canvas \<Rightarrow> real \<Rightarrow> bounds \<Rightarrow> real" where
  "scaleY sz y b = height sz - ((y - yMin b) / (yMax b - yMin b)) * height sz"

definition canvasToGraphCoords :: "canvas \<Rightarrow> real \<Rightarrow> real \<Rightarrow> bounds \<Rightarrow> vec" where
  "canvasToGraphCoords sz canvasX canvasY b =
     \<lparr>vx = xMin b + (canvasX / width sz) * (xMax b - xMin b),
      vy = yMax b - (canvasY / height sz) * (yMax b - yMin b)\<rparr>"

subsection \<open>The state of the page and its event handlers\<close>

record drag =
  drag_x :: real
  drag_y :: real
  startCenter :: "vec option"

record page =
  page_viewport :: viewport
  zoomLevel :: real
  page_size :: canvas
  dragStart :: drag

definition initial_page :: page where
  "initial_page =
     \<lparr>page_viewport = \<lparr>center = \<lparr>vx = 0, vy = 0\<rparr>, zoom = 1\<rparr>,
      zoomLevel = 1,
      page_size = \<lparr>width = 800, height = 600\<rparr>,
      dragStart = \<lparr>drag_x = 0, drag_y = 0, startCenter = None\<rparr>\<rparr>"


text \<open>
  \<^verbatim>\<open>setZoomLevel={(newZoom) => setViewport(prev => ({...prev, zoom: Math.max(0.5, Math.min(2.0, newZoom))}))}\<close>
\<close>

definition setZoomLevel :: "real \<Rightarrow> page \<Rightarrow> page" where
  "setZoomLevel newZoom s =
     s\<lparr>page_viewport := (page_viewport s)\<lparr>zoom := max (1 / 2) (min 2 newZoom)\<rparr>\<rparr>"

text \<open>
  \<^verbatim>\<open>const newZoom = parseFloat(value); setZoomLevel(Math.max(0.5, Math.min(2.0, newZoom)));\<close>
  The argument is the number read by \<^verbatim>\<open>parseFloat\<close>: the handler is called with
  \<^verbatim>\<open>zoomLevel - 0.1\<close>, \<^verbatim>\<open>zoomLevel + 0.1\<close> and the value of a range input.
\<close>

definition handleZoomChange :: "real \<Rightarrow> page \<Rightarrow> page" where
  "handleZoomChange newZoom s = setZoomLevel (max (1 / 2) (min 2 newZoom)) s"

definition handleViewportChange :: "viewport \<Rightarrow> page \<Rightarrow> page" where
  "handleViewportChange newViewport s =
     s\<lparr>page_viewport := newViewport, zoomLevel := zoom newViewport\<rparr>"

definition resetView :: "page \<Rightarrow> page" where
  "resetView s = s\<lparr>page_viewport := \<lparr>center = \<lparr>vx = 0, vy = 0\<rparr>, zoom = 1\<rparr>\<rparr>"

definition handleMouseDown :: "real \<Rightarrow> real \<Rightarrow> page \<Rightarrow> page" where
  "handleMouseDown clientX clientY s =
     s\<lparr>dragStart := \<lparr>drag_x = clientX, drag_y = clientY,
                      startCenter = Some (center (page_viewport s))\<rparr>\<rparr>"

text \<open>
  \<^verbatim>\<open>
  if (!dragStart.x) return;
  const dx = (e.clientX - dragStart.x) * (viewport.zoom / size.width);
  const dy = (dragStart.y - e.clientY) * (viewport.zoom / size.height);
  onViewportChange({...viewport,
    center: { x: dragStart.startCenter.x - dx * 20, y: dragStart.startCenter.y - dy * 20 }});
  \<close>
  The viewport that a move during a drag asks for:
\<close>

definition pan_viewport :: "canvas \<Rightarrow> viewport \<Rightarrow> real \<times> real \<Rightarrow> vec \<Rightarrow> real \<times> real \<Rightarrow> viewport" where
  "pan_viewport sz vp start start_center client =
     (let dx = (fst client - fst start) * (zoom vp / width sz);
          dy = (snd start - snd client) * (zoom vp / height sz)
      in vp\<lparr>center := \<lparr>vx = vx start_center - dx * 20, vy = vy start_center - dy * 20\<rparr>\<rparr>)"

definition handleMouseMove :: "real \<Rightarrow> real \<Rightarrow> page \<Rightarrow> page" where
  "handleMouseMove clientX clientY s =
     (if drag_x (dragStart s) = 0 then s
      else
        (case startCenter (dragStart s) of
           None \<Rightarrow> s
         | Some c \<Rightarrow>
             handleViewportChange
               (pan_viewport (page_size s) (page_viewport s)
                  (drag_x (dragStart s), drag_y (dragStart s)) c (clientX, clientY)) s))"

definition handleMouseUp :: "page \<Rightarrow> page" where
  "handleMouseUp s =
     handleViewportChange (page_viewport s)
       (s\<lparr>dragStart := \<lparr>drag_x = 0, drag_y = 0, startCenter = None\<rparr>\<rparr>)"

definition updateSize :: "real \<Rightarrow> real \<Rightarrow> page \<Rightarrow> page" where
  "updateSize w h s = s\<lparr>page_size := \<lparr>width = w, height = h\<rparr>\<rparr>"

datatype event =
    ZoomChange real
  | ResetView
  | MouseDown real real
  | MouseMove real real
  | MouseUp
  | Resize real real

fun handle :: "event \<Rightarrow> page \<Rightarrow> page" where
  "handle (ZoomChange v) s = handleZoomChange v s"
| "handle ResetView s = resetView s"
| "handle (MouseDown cx cy) s = handleMouseDown cx cy s"
| "handle (MouseMove cx cy) s = handleMouseMove cx cy s"
| "handle MouseUp s = handleMouseUp s"
| "handle (Resize w h) s = updateSize w h s"

definition run :: "event list \<Rightarrow> page \<Rightarrow> page" where
  "run evs s = fold handle evs s"

text \<open>
  The graph point under a pixel, as \<^verbatim>\<open>handleCanvasClick\<close> computes it:
  \<^verbatim>\<open>canvasToGraphCoords(canvasX, canvasY, calculateBounds())\<close>.
\<close>

definition graph_under :: "canvas \<Rightarrow> viewport \<Rightarrow> real \<times> real \<Rightarrow> vec" where
  "graph_under sz vp p = canvasToGraphCoords sz (fst p) (snd p) (calculateBounds sz vp)"

section \<open>mathjs on five expressions\<close>

text \<open>
  The examples below run the code on concrete expressions, and need what mathjs does
  with them: \<^verbatim>\<open>x\<close> is the variable, \<^verbatim>\<open>x^2\<close> its square, \<^verbatim>\<open>600000/x\<close> a quotient of
  numbers (an infinity at zero), \<^verbatim>\<open>x2\<close> parses as the symbol \<^verbatim>\<open>x2\<close>, which the scope
  \<^verbatim>\<open>{x}\<close> does not define, so that evaluating it throws, and
  \<^verbatim>\<open>x < 999 ? -600000 : 600000\<close> is a conditional. The function is used on these five
  strings only.
\<close>

definition mathjs_sample :: mathjs where
  "mathjs_sample s =
     (if s = ''x'' then Inr (\<lambda>x. Inr x)
      else if s = ''x^2'' then Inr (\<lambda>x. Inr (js_mul x x))
      else if s = ''600000/x'' then Inr (\<lambda>x. Inr (js_div (Fin 600000) x))
      else if s = ''x2'' then Inr (\<lambda>x. Inl (Error ''Undefined symbol x2''))
      else if s = ''x < 999 ? -600000 : 600000''
        then Inr (\<lambda>x. Inr (if js_lt x (Fin 999) then Fin (- 600000) else Fin 600000))
      else Inl (Error ''Unexpected end of expression''))"

definition jump_expression :: string where
  "jump_expression = ''x < 999 ? -600000 : 600000''"

definition break_run :: "point list" where
  \<comment> \<open>what \<^verbatim>\<open>generatePoints("x", -1000000, 1000000, 1500000)\<close> returns\<close>
  "break_run =
     [\<lparr>px = Fin (- 1000000), py = Fin (- 1000000)\<rparr>,
      \<lparr>px = Fin 500000, py = NaN\<rparr>,
      \<lparr>px = Fin 500000, py = Fin 500000\<rparr>]"


section \<open>Notions used in the statements\<close>

text \<open>
  The points emitted on the first \<open>k\<close> sample positions, and the test of the loop
  before its iteration number \<open>k\<close> (counted from \<open>0\<close>).
\<close>

definition visited :: "mathjs \<Rightarrow> string \<Rightarrow> jsnum \<Rightarrow> jsnum \<Rightarrow> nat \<Rightarrow> point list" where
  "visited math expression mn step k =
     emitted (evaluate_y math expression) None (sample_xs mn step k)"

definition guard :: "mathjs \<Rightarrow> string \<Rightarrow> jsnum \<Rightarrow> jsnum \<Rightarrow> jsnum \<Rightarrow> nat \<Rightarrow> bool" where
  "guard math expression mn mx step k =
     (js_le (sample_x mn step k) mx \<and> length (visited math expression mn step k) < MAX_POINTS)"

text \<open>Every \<^verbatim>\<open>NaN\<close> point is followed by a valid point at the same position.\<close>

fun breaks_ok :: "point list \<Rightarrow> bool" where
  "breaks_ok [] = True"
| "breaks_ok [p] = (\<not> js_isNaN (py p))"
| "breaks_ok (p # q # ps) =
     ((if js_isNaN (py p) then px q = px p \<and> in_range (py q) else True) \<and> breaks_ok (q # ps))"



section \<open>Rounding\<close>

text \<open>
  What the proofs below use of the rounding: it is monotone, it yields a double (a
  second rounding changes nothing), and it is exact on the integers up to \<open>2^53\<close>.
\<close>

lemma rne_of_int [simp]: "rne (of_int n) = n"
  by (simp add: rne_def)

lemma rne_bounds: "\<lfloor>q\<rfloor> \<le> rne q \<and> rne q \<le> \<lfloor>q\<rfloor> + 1"
  by (simp add: rne_def Let_def)

lemma rne_mono: "a \<le> b \<Longrightarrow> rne a \<le> rne b"
proof -
  assume ab: "a \<le> b"
  have fl: "\<lfloor>a\<rfloor> \<le> \<lfloor>b\<rfloor>" using ab by (rule floor_mono)
  show ?thesis
  proof (cases "\<lfloor>a\<rfloor> = \<lfloor>b\<rfloor>")
    case True
    then show ?thesis using ab by (auto simp add: rne_def Let_def)
  next
    case False
    then have "\<lfloor>a\<rfloor> + 1 \<le> \<lfloor>b\<rfloor>" using fl by simp
    then show ?thesis using rne_bounds[of a] rne_bounds[of b] by linarith
  qed
qed

lemma rne_le_int: "q \<le> of_int n \<Longrightarrow> rne q \<le> n"
  using rne_mono[of q "of_int n"] by simp

lemma rne_ge_int: "of_int n \<le> q \<Longrightarrow> n \<le> rne q"
  using rne_mono[of "of_int n" q] by simp

lemma ulp_pos [simp]: "0 < ulp r"
  by (simp add: ulp_def)

lemma expo_ge: "- 1022 \<le> expo r"
  by (simp add: expo_def)

lemma expo_upper:
  assumes "0 < r"
  shows "r < 2 powr of_int (expo r + 1)"
proof -
  have "r < 2 powr of_int (\<lfloor>log 2 r\<rfloor> + 1)"
    using assms floor_log_eq_powr_iff[of r 2 "\<lfloor>log 2 r\<rfloor>"] by simp
  also have "\<dots> \<le> 2 powr of_int (expo r + 1)"
    using assms by (simp add: expo_def)
  finally show ?thesis .
qed

lemma expo_lower:
  assumes "0 < r" and "- 1022 < expo r"
  shows "2 powr of_int (expo r) \<le> r"
proof -
  have "expo r = \<lfloor>log 2 r\<rfloor>" using assms by (simp add: expo_def max_def split: if_splits)
  then show ?thesis
    using assms floor_log_eq_powr_iff[of r 2 "\<lfloor>log 2 r\<rfloor>"] by simp
qed

lemma expo_eqI:
  assumes "0 < r" and "r < 2 powr of_int (k + 1)" and "2 powr of_int k \<le> r \<or> k = - 1022"
    and "- 1022 \<le> k"
  shows "expo r = k"
proof (cases "2 powr of_int k \<le> r")
  case True
  then have "\<lfloor>log 2 r\<rfloor> = k"
    using assms(1,2) floor_log_eq_powr_iff[of r 2 k] by simp
  then show ?thesis using assms(1,4) by (simp add: expo_def)
next
  case False
  then have k: "k = - 1022" and lt: "r < 2 powr of_int k" using assms(3) by auto
  have "log 2 r < of_int k" using lt assms(1) by (simp add: log_less_iff)
  then have "\<lfloor>log 2 r\<rfloor> < k" by (simp add: floor_less_iff)
  then show ?thesis using assms(1) k by (simp add: expo_def)
qed

lemma expo_mono:
  assumes "0 < r" and "r \<le> s"
  shows "expo r \<le> expo s"
proof -
  have "log 2 r \<le> log 2 s" using assms by simp
  then have "\<lfloor>log 2 r\<rfloor> \<le> \<lfloor>log 2 s\<rfloor>" by (rule floor_mono)
  then show ?thesis using assms by (simp add: expo_def)
qed

lemma ulp_nonneg [simp]: "0 \<le> ulp r"
  by (simp add: ulp_def)

lemma ulp_neq0 [simp]: "ulp r \<noteq> 0"
  by (simp add: ulp_def)

lemma two_powr_53: "(2::real) powr of_int (e + 1) = 2 ^ 53 * 2 powr of_int (e - 52)"
proof -
  have "(of_int (e + 1) :: real) = 53 + of_int (e - 52)" by simp
  then have "(2::real) powr of_int (e + 1) = 2 powr (53 + of_int (e - 52))" by (simp only:)
  also have "\<dots> = 2 powr 53 * 2 powr of_int (e - 52)" by (simp only: powr_add)
  also have "(2::real) powr 53 = 2 ^ 53" by (simp add: powr_numeral)
  finally show ?thesis by simp
qed

lemma two_powr_52: "(2::real) powr of_int e = 2 ^ 52 * 2 powr of_int (e - 52)"
proof -
  have "(of_int e :: real) = 52 + of_int (e - 52)" by simp
  then have "(2::real) powr of_int e = 2 powr (52 + of_int (e - 52))" by (simp only:)
  also have "\<dots> = 2 powr 52 * 2 powr of_int (e - 52)" by (simp only: powr_add)
  also have "(2::real) powr 52 = 2 ^ 52" by (simp add: powr_numeral)
  finally show ?thesis by simp
qed

lemma fl_mag_upper:
  assumes "0 < r"
  shows "fl_mag r \<le> 2 powr of_int (expo r + 1)"
proof -
  have "r < 2 ^ 53 * ulp r"
    using expo_upper[OF assms] by (simp only: two_powr_53 ulp_def)
  then have "r / ulp r \<le> 2 ^ 53"
    by (simp add: pos_divide_le_eq)
  then have "r / ulp r \<le> of_int (2 ^ 53)" by simp
  then have "rne (r / ulp r) \<le> 2 ^ 53" by (rule rne_le_int)
  then have "(of_int (rne (r / ulp r)) :: real) \<le> of_int (2 ^ 53)"
    by (simp only: of_int_le_iff)
  then have "fl_mag r \<le> 2 ^ 53 * ulp r"
    unfolding fl_mag_def by (simp add: mult_right_mono)
  then show ?thesis by (simp only: two_powr_53 ulp_def)
qed

lemma fl_mag_lower:
  assumes "0 < r" and "- 1022 < expo r"
  shows "2 powr of_int (expo r) \<le> fl_mag r"
proof -
  have "2 ^ 52 * ulp r \<le> r"
    using expo_lower[OF assms] by (simp only: two_powr_52[of "expo r"] ulp_def)
  then have "2 ^ 52 \<le> r / ulp r"
    by (simp add: pos_le_divide_eq)
  then have "of_int (2 ^ 52) \<le> r / ulp r" by simp
  then have "2 ^ 52 \<le> rne (r / ulp r)" by (rule rne_ge_int)
  then have "(of_int (2 ^ 52) :: real) \<le> of_int (rne (r / ulp r))"
    by (simp only: of_int_le_iff)
  then have "2 ^ 52 * ulp r \<le> fl_mag r"
    unfolding fl_mag_def by (simp add: mult_right_mono)
  then show ?thesis by (simp only: two_powr_52[of "expo r"] ulp_def)
qed

lemma fl_mag_nonneg: "0 < r \<Longrightarrow> 0 \<le> fl_mag r"
proof -
  assume "0 < r"
  then have "of_int 0 \<le> r / ulp r" by simp
  then have "0 \<le> rne (r / ulp r)" by (rule rne_ge_int)
  then show ?thesis by (simp add: fl_mag_def)
qed

lemma fl_mag_mono:
  assumes "0 < r" and "r \<le> s"
  shows "fl_mag r \<le> fl_mag s"
proof (cases "expo r = expo s")
  case True
  then have u: "ulp r = ulp s" by (simp add: ulp_def)
  have "r / ulp s \<le> s / ulp s" using assms(2) by (simp add: divide_right_mono)
  then have "rne (r / ulp s) \<le> rne (s / ulp s)" by (rule rne_mono)
  then show ?thesis by (simp add: fl_mag_def u mult_right_mono)
next
  case False
  then have lt: "expo r < expo s" using expo_mono[OF assms] by simp
  have s: "0 < s" using assms by simp
  have "- 1022 < expo s" using lt expo_ge[of r] by simp
  then have "2 powr of_int (expo s) \<le> fl_mag s" using s by (intro fl_mag_lower)
  moreover have "fl_mag r \<le> 2 powr of_int (expo r + 1)" using assms(1) by (rule fl_mag_upper)
  moreover have "(2::real) powr of_int (expo r + 1) \<le> 2 powr of_int (expo s)"
    using lt by (simp add: powr_mono)
  ultimately show ?thesis by linarith
qed

lemma fl_mag_exact:
  assumes "r / ulp r = of_int m"
  shows "fl_mag r = r"
proof -
  have "rne (r / ulp r) = m" using assms by simp
  moreover have "r = of_int m * ulp r" using assms by (simp add: nonzero_divide_eq_eq)
  ultimately show ?thesis by (simp add: fl_mag_def)
qed

lemma rne_ratio_upper:
  assumes "0 < r"
  shows "rne (r / ulp r) \<le> 2 ^ 53"
proof -
  have "r < 2 ^ 53 * ulp r"
    using expo_upper[OF assms] by (simp only: two_powr_53 ulp_def)
  then have "r / ulp r \<le> 2 ^ 53"
    by (simp add: pos_divide_le_eq)
  then have "r / ulp r \<le> of_int (2 ^ 53)" by simp
  then show ?thesis by (rule rne_le_int)
qed

lemma ulp_eq: "expo v = e \<Longrightarrow> ulp v = 2 powr of_int (e - 52)"
  by (simp add: ulp_def)

lemma fl_mag_idem:
  assumes r: "0 < r" and v: "0 < fl_mag r"
  shows "fl_mag (fl_mag r) = fl_mag r"
proof -
  define e where "e = expo r"
  define u where "u = ulp r"
  define m where "m = rne (r / ulp r)"
  have u: "u = 2 powr of_int (e - 52)" "0 < u" by (simp_all add: u_def e_def ulp_def)
  have fm: "fl_mag r = of_int m * u" by (simp add: fl_mag_def m_def u_def)
  have m53: "m \<le> 2 ^ 53" unfolding m_def using r by (rule rne_ratio_upper)
  have e: "- 1022 \<le> e" by (simp add: e_def expo_ge)
  show ?thesis
  proof (cases "m = 2 ^ 53")
    case True
    then have val: "fl_mag r = 2 powr of_int (e + 1)"
      by (simp only: fm u(1) two_powr_53 of_int_numeral of_int_power)
    have "expo (fl_mag r) = e + 1"
    proof (rule expo_eqI)
      show "0 < fl_mag r" by (rule v)
      show "fl_mag r < 2 powr of_int (e + 1 + 1)" by (simp add: val)
      show "2 powr of_int (e + 1) \<le> fl_mag r \<or> e + 1 = - 1022" by (simp add: val)
      show "- 1022 \<le> e + 1" using e by simp
    qed
    then have "ulp (fl_mag r) = 2 powr of_int (e + 1 - 52)" by (rule ulp_eq)
    then have "fl_mag r / ulp (fl_mag r) = 2 powr of_int (e + 1) / 2 powr of_int (e + 1 - 52)"
      by (simp add: val)
    also have "\<dots> = 2 ^ 52"
      by (subst two_powr_52[of "e + 1"]) (simp del: of_int_add of_int_diff)
    also have "\<dots> = of_int (2 ^ 52)" by simp
    finally show ?thesis by (rule fl_mag_exact)
  next
    case False
    then have "m < 2 ^ 53" using m53 by simp
    then have "(of_int m :: real) < of_int (2 ^ 53)" by (simp only: of_int_less_iff)
    then have "of_int m * u < 2 ^ 53 * u" using u(2) by simp
    then have lt: "fl_mag r < 2 powr of_int (e + 1)"
      by (simp only: fm u(1) two_powr_53)
    have "expo (fl_mag r) = e"
    proof (rule expo_eqI)
      show "0 < fl_mag r" by (rule v)
      show "fl_mag r < 2 powr of_int (e + 1)" by (rule lt)
      show "2 powr of_int e \<le> fl_mag r \<or> e = - 1022"
        using fl_mag_lower[OF r] e by (auto simp add: e_def)
      show "- 1022 \<le> e" by (rule e)
    qed
    then have "ulp (fl_mag r) = u" by (simp add: ulp_def u(1))
    then have "fl_mag r / ulp (fl_mag r) = of_int m" using u(2) by (simp add: fm)
    then show ?thesis by (rule fl_mag_exact)
  qed
qed

lemma fl_mag_int:
  assumes "0 < n" and "n \<le> 2 ^ 53"
  shows "fl_mag (of_int n) = of_int n"
proof -
  define e where "e = expo (of_int n)"
  have pos: "(0::real) < of_int n" using assms(1) by simp
  have "0 \<le> log 2 \<bar>of_int n\<bar>" using assms(1) by simp
  then have "0 \<le> \<lfloor>log 2 \<bar>of_int n :: real\<bar>\<rfloor>" by simp
  then have e0: "0 \<le> e" unfolding e_def expo_def by (rule max.coboundedI1)
  then have lo: "(2::real) powr of_int e \<le> of_int n"
    using expo_lower[OF pos] by (simp add: e_def)
  have pw: "(2::real) powr of_int e = 2 ^ nat e" using e0 by (simp add: powr_real_of_int)
  have "(of_int n :: real) \<le> of_int (2 ^ 53)" using assms(2) by (simp only: of_int_le_iff)
  then have n53: "(of_int n :: real) \<le> 2 ^ 53" by (simp only: of_int_power of_int_numeral)
  have "(2::real) ^ nat e \<le> 2 ^ 53" using lo n53 pw by linarith
  then have "nat e \<le> 53" by (rule power_le_imp_le_exp[rotated]) simp
  then have e53: "e \<le> 53" by simp
  have u: "ulp (of_int n) = 2 powr of_int (e - 52)" by (simp add: ulp_def e_def)
  show ?thesis
  proof (cases "e = 53")
    case True
    have "nat e = 53" using True by simp
    then have "(2::real) ^ 53 \<le> of_int n" using lo pw by (simp only:)
    then have "(of_int (2 ^ 53) :: real) \<le> of_int n" by (simp only: of_int_power of_int_numeral)
    then have "2 ^ 53 \<le> n" by (simp only: of_int_le_iff)
    then have n: "n = 2 ^ 53" using assms(2) by (rule antisym[rotated])
    have "ulp (of_int n) = 2" using u True by simp
    then have "of_int n / ulp (of_int n) = (of_int (2 ^ 53) :: real) / 2" by (simp only: n)
    also have "\<dots> = of_int (2 ^ 52)" by simp
    finally show ?thesis by (rule fl_mag_exact)
  next
    case False
    then have "e \<le> 52" using e53 by simp
    have "(2::real) powr of_int (e - 52) =
        (if 0 \<le> e - 52 then 2 ^ nat (e - 52) else inverse (2 ^ nat (- (e - 52))))"
      by (rule powr_real_of_int) simp
    then have "(2::real) powr of_int (e - 52) = inverse (2 ^ nat (52 - e))"
      using \<open>e \<le> 52\<close> by (cases "e = 52") simp_all
    then have "of_int n / ulp (of_int n) = of_int (n * 2 ^ nat (52 - e))"
      by (simp add: u divide_inverse)
    then show ?thesis by (rule fl_mag_exact)
  qed
qed

text \<open>The same for \<open>fl\<close>, with the sign and the overflow to an infinity.\<close>

lemma fl_pos:
  "0 < r \<Longrightarrow> fl r = (if 2 ^ 1024 \<le> fl_mag r then PInf else Fin (fl_mag r))"
  by (simp add: fl_def js_inf_def)

lemma fl_neg:
  "r < 0 \<Longrightarrow> fl r = (if 2 ^ 1024 \<le> fl_mag (- r) then NInf else Fin (- fl_mag (- r)))"
  by (simp add: fl_def js_inf_def)

lemma fl_zero [simp]: "fl 0 = Fin 0"
  by (simp add: fl_def)

lemma fl_not_NaN [simp]: "fl r \<noteq> NaN"
  by (cases "r = 0") (auto simp add: fl_def js_inf_def)

lemma fl_int:
  assumes "\<bar>n\<bar> \<le> 2 ^ 53"
  shows "fl (of_int n) = Fin (of_int n)"
proof -
  have big: "(of_int m :: real) < 2 ^ 1024" if "m \<le> 2 ^ 53" for m :: int
  proof -
    have "(of_int m :: real) \<le> of_int (2 ^ 53)" using that by (simp only: of_int_le_iff)
    also have "\<dots> < 2 ^ 1024" by simp
    finally show ?thesis .
  qed
  consider "n = 0" | "0 < n" | "n < 0" by linarith
  then show ?thesis
  proof cases
    case 1
    then show ?thesis by simp
  next
    case 2
    then have "n \<le> 2 ^ 53" using assms by simp
    then show ?thesis using 2 fl_mag_int[of n] big[of n] by (simp add: fl_pos)
  next
    case 3
    then have le: "- n \<le> 2 ^ 53" and pos: "0 < - n" using assms by simp_all
    have "fl_mag (of_int (- n)) = of_int (- n)" using pos le by (rule fl_mag_int)
    then show ?thesis using 3 big[OF le] by (simp add: fl_neg)
  qed
qed

lemma fl_numeral [simp]:
  "numeral k \<le> (2 ^ 53 :: int) \<Longrightarrow> fl (numeral k) = Fin (numeral k)"
  using fl_int[of "numeral k"] by simp

lemma fl_neg_numeral [simp]:
  "numeral k \<le> (2 ^ 53 :: int) \<Longrightarrow> fl (- numeral k) = Fin (- numeral k)"
  using fl_int[of "- numeral k"] by simp

lemma fl_one [simp]: "fl 1 = Fin 1"
  using fl_int[of 1] by simp

lemma fl_neg_one [simp]: "fl (- 1) = Fin (- 1)"
  using fl_int[of "- 1"] by simp

lemma fl_nat: "n \<le> 2 ^ 53 \<Longrightarrow> fl (real n) = Fin (real n)"
  using fl_int[of "int n"] by simp

lemma fl_double: "js_double (fl r)"
proof -
  have mag: "fl (s * fl_mag a) = Fin (s * fl_mag a)"
    if a: "0 < a" and s: "s = 1 \<or> s = - 1" and small: "\<not> 2 ^ 1024 \<le> fl_mag a" for a s
  proof (cases "fl_mag a = 0")
    case True
    then show ?thesis by simp
  next
    case False
    then have v: "0 < fl_mag a" using fl_mag_nonneg[OF a] by simp
    have idem: "fl_mag (fl_mag a) = fl_mag a" using a v by (rule fl_mag_idem)
    from s show ?thesis
    proof
      assume "s = 1"
      then show ?thesis using v idem small by (simp add: fl_pos)
    next
      assume "s = - 1"
      then show ?thesis using v idem small by (simp add: fl_neg)
    qed
  qed
  consider "r = 0" | "0 < r" | "r < 0" by linarith
  then show ?thesis
  proof cases
    case 1
    then show ?thesis by (simp add: js_double_def)
  next
    case 2
    then show ?thesis using mag[of r 1] by (simp add: js_double_def fl_pos)
  next
    case 3
    then show ?thesis using mag[of "- r" "- 1"] by (simp add: js_double_def fl_neg)
  qed
qed

lemma js_le_Fin [simp]: "js_le (Fin a) (Fin b) \<longleftrightarrow> a \<le> b"
  by (auto simp add: js_le_def)

lemma fl_nonneg: "0 \<le> r \<Longrightarrow> js_le (Fin 0) (fl r)"
proof (cases "r = 0")
  case False
  assume "0 \<le> r"
  with False have r: "0 < r" by simp
  then show ?thesis using fl_mag_nonneg[OF r] by (simp add: fl_pos) (simp add: js_le_def)
qed simp

lemma fl_nonpos: "r \<le> 0 \<Longrightarrow> js_le (fl r) (Fin 0)"
proof (cases "r = 0")
  case False
  assume "r \<le> 0"
  with False have r: "0 < - r" by simp
  then show ?thesis using fl_mag_nonneg[OF r] by (simp add: fl_neg) (simp add: js_le_def)
qed simp

lemma js_le_trans: "js_le a b \<Longrightarrow> js_le b c \<Longrightarrow> js_le a c"
  by (cases a; cases b; cases c) (auto simp add: js_le_def)

lemma fl_mono:
  assumes "r \<le> s"
  shows "js_le (fl r) (fl s)"
proof -
  consider "r = s" | "r \<le> 0" "0 \<le> s" | "0 < r" "r \<le> s" | "s < 0" "r \<le> s"
    using assms by linarith
  then show ?thesis
  proof cases
    case 1
    then show ?thesis by (simp add: js_le_def)
  next
    case 2
    then show ?thesis using fl_nonpos fl_nonneg js_le_trans by blast
  next
    case 3
    then have "fl_mag r \<le> fl_mag s" by (rule fl_mag_mono)
    then show ?thesis using 3 by (auto simp add: fl_pos js_le_def)
  next
    case 4
    then have "fl_mag (- s) \<le> fl_mag (- r)" by (intro fl_mag_mono) simp_all
    then show ?thesis using 4 by (auto simp add: fl_neg js_le_def)
  qed
qed

text \<open>A sum is a double, and adding a step above zero to a double does not go down.\<close>

lemma js_double_add [simp]: "js_double (js_add x step)"
  by (cases x; cases step) (simp_all add: fl_double, simp_all add: js_double_def)

lemma js_le_add_pos:
  assumes "js_gt step (Fin 0)" and "js_double x" and "x \<noteq> NaN" and "js_add x step \<noteq> NaN"
  shows "js_le x (js_add x step)"
proof (cases x)
  case (Fin a)
  show ?thesis
  proof (cases step)
    case (Fin s)
    then have "a \<le> a + s" using assms(1) by (simp add: js_gt_def)
    then have "js_le (fl a) (fl (a + s))" by (rule fl_mono)
    then show ?thesis using assms(2) Fin \<open>x = Fin a\<close> by (simp add: js_double_def)
  qed (use assms Fin in \<open>simp_all add: js_le_def js_gt_def\<close>)
qed (use assms in \<open>cases step; simp add: js_le_def js_gt_def\<close>)+

section \<open>The evaluator never raises\<close>

lemma evaluateExpression_Inr:
  "evaluateExpression math e x = Inr (evaluate_y math e x)"
  by (simp add: evaluate_y_def evaluateExpression_def try_catch_def split: sum.splits)

text \<open>
  C3. For every expression and every \<open>x\<close>, \<^verbatim>\<open>evaluateExpression\<close> returns to its
  caller and never raises: when mathjs throws on parsing (a malformed expression) the
  result is \<^verbatim>\<open>NaN\<close>, when it throws on evaluating (an undefined symbol, a runtime
  exception) the result is \<^verbatim>\<open>NaN\<close>, and otherwise it is the number mathjs computed.
\<close>

theorem evaluateExpression_never_raises:
  "evaluateExpression math expression x =
     Inr (case math expression of
            Inl parse_error \<Rightarrow> NaN
          | Inr node \<Rightarrow> (case node x of Inl runtime_error \<Rightarrow> NaN | Inr v \<Rightarrow> v))"
  by (simp add: evaluateExpression_def try_catch_def split: sum.splits)

section \<open>The loop of the sampler\<close>

lemma in_range_iff:
  "in_range y \<longleftrightarrow> \<not> (js_isNaN y \<or> js_gt (js_abs y) DISCONTINUITY_THRESHOLD)"
  by (cases y) (auto simp add: in_range_def js_gt_def DISCONTINUITY_THRESHOLD_def)

lemma in_range_not_NaN: "in_range y \<Longrightarrow> \<not> js_isNaN y"
  by (cases y) (simp_all add: in_range_def)

text \<open>One iteration never raises, and does to \<^verbatim>\<open>points\<close> and \<^verbatim>\<open>previousY\<close> what the
  rules say for one position.\<close>

lemma gp_body_eq:
  "gp_body math e x (ps, prev) =
     Inr (ps @ emitted (evaluate_y math e) prev [x], tracked (evaluate_y math e) prev [x])"
  by (simp add: gp_body_def evaluateExpression_Inr in_range_iff
       DISCONTINUITY_THRESHOLD_def split: option.splits)

text \<open>Induction over the iterations of a run that returns, with all seven arguments curried.\<close>

lemma gp_loop_induct:
  assumes "gp_loop math e mx step x ps prev = Some r"
    and "\<And>f math e mx step x ps prev r.
      (\<And>math e mx step x ps prev r.
          f math e mx step x ps prev = Some r \<Longrightarrow> P math e mx step x ps prev r) \<Longrightarrow>
      (if js_le x mx \<and> length ps < MAX_POINTS
       then case gp_body math e x (ps, prev) of
              Inl e \<Rightarrow> Some (Inl e)
            | Inr (points', previousY') \<Rightarrow> f math e mx step (js_add x step) points' previousY'
       else Some (Inr ps)) = Some r \<Longrightarrow>
      P math e mx step x ps prev r"
  shows "P math e mx step x ps prev r"
proof (rule gp_loop.raw_induct[where xa = "((((((math, e), mx), step), x), ps), prev)" and y = r
      and P = P, simplified])
  show "gp_loop math e mx step x ps prev = Some r" by (rule assms(1))
next
  fix f :: "mathjs \<Rightarrow> string \<Rightarrow> jsnum \<Rightarrow> jsnum \<Rightarrow> jsnum \<Rightarrow> point list \<Rightarrow> jsnum option
              \<Rightarrow> (exn + point list) option"
  fix math e mx step x ps prev r
  assume "\<And>e mx step x ps prev b r. f e mx step x ps prev b = Some r \<Longrightarrow> P e mx step x ps prev b r"
    and "(if js_le x mx \<and> length ps < MAX_POINTS
       then case gp_body math e x (ps, prev) of
              Inl e \<Rightarrow> Some (Inl e)
            | Inr (points', previousY') \<Rightarrow> f math e mx step (js_add x step) points' previousY'
       else Some (Inr ps)) = Some r"
  then show "P math e mx step x ps prev r" by (rule assms(2))
qed

text \<open>
  The rule of the loop: an invariant of the three loop variables that holds at the start
  and that every iteration keeps holds of the returned list, with the test of the loop
  false.
\<close>

lemma gp_loop_rule:
  assumes ret: "gp_loop math e mx step x ps prev = Some r"
    and inv0: "I x ps prev"
    and pres: "\<And>x ps prev. I x ps prev \<Longrightarrow> js_le x mx \<Longrightarrow> length ps < MAX_POINTS \<Longrightarrow>
        I (js_add x step) (ps @ emitted (evaluate_y math e) prev [x])
          (tracked (evaluate_y math e) prev [x])"
  shows "\<exists>x' ps' prev'. r = Inr ps' \<and> I x' ps' prev' \<and> \<not> (js_le x' mx \<and> length ps' < MAX_POINTS)"
proof -
  define Q where "Q = (\<lambda>math' e' mx' step' x ps prev (r :: exn + point list).
       (math' = math \<and> e' = e \<and> mx' = mx \<and> step' = step \<and> I x ps prev) \<longrightarrow>
       (\<exists>x' ps' prev'. r = Inr ps' \<and> I x' ps' prev' \<and> \<not> (js_le x' mx \<and> length ps' < MAX_POINTS)))"
  have "Q math e mx step x ps prev r"
  proof (rule gp_loop_induct[OF ret])
    fix f :: "mathjs \<Rightarrow> string \<Rightarrow> jsnum \<Rightarrow> jsnum \<Rightarrow> jsnum \<Rightarrow> point list \<Rightarrow> jsnum option
                \<Rightarrow> (exn + point list) option"
    fix matha ea mxa stepa xa psa preva ra
    assume IH: "\<And>math e mx step x ps prev r.
        f math e mx step x ps prev = Some r \<Longrightarrow> Q math e mx step x ps prev r"
      and eq: "(if js_le xa mxa \<and> length psa < MAX_POINTS
         then case gp_body matha ea xa (psa, preva) of Inl e \<Rightarrow> Some (Inl e)
              | Inr (points', previousY') \<Rightarrow>
                  f matha ea mxa stepa (js_add xa stepa) points' previousY'
         else Some (Inr psa)) = Some ra"
    show "Q matha ea mxa stepa xa psa preva ra"
      unfolding Q_def
    proof (intro impI, elim conjE)
      assume h: "matha = math" "ea = e" "mxa = mx" "stepa = step" "I xa psa preva"
      show "\<exists>x' ps' prev'. ra = Inr ps' \<and> I x' ps' prev' \<and>
              \<not> (js_le x' mx \<and> length ps' < MAX_POINTS)"
      proof (cases "js_le xa mx \<and> length psa < MAX_POINTS")
        case False
        with eq h have "ra = Inr psa" by auto
        with False h show ?thesis by blast
      next
        case True
        let ?ps = "psa @ emitted (evaluate_y math e) preva [xa]"
        let ?pv = "tracked (evaluate_y math e) preva [xa]"
        from True eq h have "f math e mx step (js_add xa step) ?ps ?pv = Some ra"
          by (simp add: gp_body_eq del: emitted.simps tracked.simps)
        moreover have "I (js_add xa step) ?ps ?pv" using pres[OF h(5)] True by blast
        ultimately show ?thesis using IH unfolding Q_def by blast
      qed
    qed
  qed
  with inv0 show ?thesis unfolding Q_def by simp
qed

section \<open>The sampler on the positions it visits\<close>

lemma tracked_append:
  "tracked f p (xs @ ys) = tracked f (tracked f p xs) ys"
  by (induction xs arbitrary: p) simp_all

lemma emitted_append:
  "emitted f p (xs @ ys) = emitted f p xs @ emitted f (tracked f p xs) ys"
  by (induction xs arbitrary: p) simp_all

lemma sample_xs_Suc:
  "sample_xs mn step (Suc k) = sample_xs mn step k @ [sample_x mn step k]"
  by (simp add: sample_xs_def)

lemma sample_x_Suc:
  "sample_x mn step (Suc k) = js_add (sample_x mn step k) step"
  by (simp add: sample_x_def)

lemma gp_loop_refines:
  assumes "gp_loop math e mx step mn [] None = Some r"
  shows "\<exists>n. r = Inr (visited math e mn step n) \<and>
             (\<forall>k<n. guard math e mn mx step k) \<and> \<not> guard math e mn mx step n"
proof -
  let ?f = "evaluate_y math e"
  define I where "I = (\<lambda>x ps prev. \<exists>k. x = sample_x mn step k \<and> ps = visited math e mn step k \<and>
      prev = tracked ?f None (sample_xs mn step k) \<and> (\<forall>j<k. guard math e mn mx step j))"
  have I0: "I mn [] None"
    unfolding I_def by (rule exI[of _ 0]) (simp add: sample_x_def sample_xs_def visited_def)
  have step: "I (js_add x step) (ps @ emitted ?f prev [x]) (tracked ?f prev [x])"
    if "I x ps prev" "js_le x mx" "length ps < MAX_POINTS" for x ps prev
  proof -
    from that(1) obtain k where k: "x = sample_x mn step k" "ps = visited math e mn step k"
      "prev = tracked ?f None (sample_xs mn step k)" "\<forall>j<k. guard math e mn mx step j"
      unfolding I_def by blast
    have g: "guard math e mn mx step k" using that(2,3) k(1,2) by (simp add: guard_def)
    have "\<forall>j<Suc k. guard math e mn mx step j" using k(4) g by (simp add: less_Suc_eq)
    then show ?thesis unfolding I_def
      by (intro exI[of _ "Suc k"])
        (simp only: sample_x_Suc sample_xs_Suc visited_def emitted_append tracked_append k)
  qed
  from gp_loop_rule[where I = I, OF assms I0 step]
  obtain x' ps' prev' where "r = Inr ps'" "I x' ps' prev'"
    "\<not> (js_le x' mx \<and> length ps' < MAX_POINTS)"
    by blast
  then show ?thesis unfolding I_def guard_def by blast
qed

lemma generatePoints_visited:
  assumes "generatePoints math e mn mx step = Some r"
  shows "\<exists>n. r = Inr (visited math e mn step n)"
proof (cases "trim e = []")
  case True
  with assms have "r = Inr (visited math e mn step 0)"
    by (simp add: generatePoints_def visited_def sample_xs_def)
  then show ?thesis by blast
next
  case False
  with assms have "gp_loop math e mx step mn [] None = Some r"
    by (simp add: generatePoints_def)
  from gp_loop_refines[OF this] show ?thesis by blast
qed



lemma gp_loop_never_returns:
  assumes "\<forall>n. guard math e mn mx step n"
  shows "gp_loop math e mx step mn [] None = None"
proof (rule ccontr)
  assume "gp_loop math e mx step mn [] None \<noteq> None"
  then obtain r where "gp_loop math e mx step mn [] None = Some r" by auto
  from gp_loop_refines[OF this] assms show False by blast
qed

subsection \<open>Runs with a break, with a gap, and without an end\<close>

lemma trim_x: "trim ''x'' = ''x''"
  by (simp add: trim_def is_space_def)

lemma evaluate_y_sample_x: "evaluate_y mathjs_sample ''x'' v = v"
  by (simp add: evaluate_y_def evaluateExpression_def try_catch_def mathjs_sample_def)

lemma generatePoints_break_run:
  "generatePoints mathjs_sample ''x'' (Fin (- 1000000)) (Fin 1000000) (Fin 1500000) =
     Some (Inr break_run)"
  by (simp add: generatePoints_def trim_x gp_loop.simps gp_body_eq evaluate_y_sample_x
        js_le_def js_gt_def js_sub_def in_range_def MAX_POINTS_def break_run_def)






lemma emitted_none: "\<forall>x\<in>set xs. \<not> in_range (f x) \<Longrightarrow> emitted f p xs = []"
  by (induction xs arbitrary: p) simp_all

lemma evaluate_y_x2: "evaluate_y mathjs_sample ''x2'' v = NaN"
  by (simp add: evaluate_y_def evaluateExpression_def try_catch_def mathjs_sample_def)



text \<open>The rules at one position, and the list emitted after one more position.\<close>

lemma emitted_one:
  "emitted f prev [x] =
     (if in_range (f x) then
        (case prev of
           None \<Rightarrow> []
         | Some p \<Rightarrow>
             if js_gt (js_abs (js_sub (f x) p)) (Fin 1000000) then [\<lparr>px = x, py = NaN\<rparr>] else [])
        @ [\<lparr>px = x, py = f x\<rparr>]
      else [])"
  by simp

lemma tracked_one: "tracked f prev [x] = (if in_range (f x) then Some (f x) else None)"
  by simp

lemma visited_Suc:
  "visited math e mn step (Suc k) =
     visited math e mn step k @
     emitted (evaluate_y math e) (tracked (evaluate_y math e) None (sample_xs mn step k))
       [sample_x mn step k]"
  by (simp only: visited_def sample_xs_Suc emitted_append)




section \<open>Break markers\<close>

lemma breaks_ok_Cons: "breaks_ok ps \<Longrightarrow> \<not> js_isNaN (py a) \<Longrightarrow> breaks_ok (a # ps)"
  by (cases ps) simp_all

lemma breaks_ok_emitted: "breaks_ok (emitted f p xs)"
proof (induction xs arbitrary: p)
  case Nil
  show ?case by simp
next
  case (Cons x xs)
  show ?case
  proof (cases "in_range (f x)")
    case False
    then show ?thesis using Cons by simp
  next
    case True
    have "breaks_ok (\<lparr>px = x, py = f x\<rparr> # emitted f (Some (f x)) xs)"
      using Cons True by (simp add: breaks_ok_Cons in_range_not_NaN)
    then show ?thesis using True by (simp split: option.splits)
  qed
qed

lemma breaks_ok_nth:
  "breaks_ok ps \<Longrightarrow> i < length ps \<Longrightarrow> js_isNaN (py (ps ! i)) \<Longrightarrow>
     Suc i < length ps \<and> px (ps ! Suc i) = px (ps ! i) \<and> in_range (py (ps ! Suc i))"
proof (induction ps arbitrary: i rule: breaks_ok.induct)
  case 1
  then show ?case by simp
next
  case (2 p)
  then show ?case by simp
next
  case (3 p q ps)
  show ?case
  proof (cases i)
    case 0
    with 3 show ?thesis by simp
  next
    case (Suc j)
    with 3 show ?thesis by simp
  qed
qed

text \<open>
  C10. In every list that \<^verbatim>\<open>generatePoints\<close> returns, a point whose \<open>y\<close> is \<^verbatim>\<open>NaN\<close> is
  not the last one, and the point right after it has the same \<open>x\<close> and a finite \<open>y\<close> of
  absolute value at most \<open>1e6\<close>.
\<close>

theorem NaN_point_followed_by_valid:
  assumes "generatePoints math expression mn mx step = Some (Inr ps)"
    and "i < length ps" and "js_isNaN (py (ps ! i))"
  shows "Suc i < length ps \<and> px (ps ! Suc i) = px (ps ! i) \<and> in_range (py (ps ! Suc i))"
proof -
  from generatePoints_visited[OF assms(1)] obtain n where "ps = visited math expression mn step n"
    by auto
  then have "breaks_ok ps" by (simp add: visited_def breaks_ok_emitted)
  then show ?thesis using assms(2,3) by (rule breaks_ok_nth)
qed

theorem NaN_point_followed_by_valid_witness:
  "generatePoints mathjs_sample ''x'' (Fin (- 1000000)) (Fin 1000000) (Fin 1500000) =
     Some (Inr break_run) \<and>
   1 < length break_run \<and> js_isNaN (py (break_run ! 1)) \<and>
   Suc 1 < length break_run \<and> px (break_run ! Suc 1) = px (break_run ! 1) \<and>
   in_range (py (break_run ! Suc 1))"
proof -
  have h2: "1 < length break_run" and h3: "js_isNaN (py (break_run ! 1))"
    by (simp_all add: break_run_def)
  from NaN_point_followed_by_valid[OF generatePoints_break_run h2 h3]
    generatePoints_break_run h2 h3
  show ?thesis by blast
qed

section \<open>The order of the \<open>x\<close> coordinates\<close>

lemma js_le_refl: "x \<noteq> NaN \<Longrightarrow> js_le x x"
  by (simp add: js_le_def)

lemma js_le_not_NaN: "js_le a b \<Longrightarrow> a \<noteq> NaN \<and> b \<noteq> NaN"
  by (cases a; cases b) (auto simp add: js_le_def)

lemma js_double_sample_x: "js_double mn \<Longrightarrow> js_double (sample_x mn step k)"
  by (cases k) (simp_all add: sample_x_def)

lemma sample_x_mono:
  assumes pos: "js_gt step (Fin 0)" and dbl: "js_double mn"
    and ok: "\<forall>k\<le>j. sample_x mn step k \<noteq> NaN"
    and ij: "i \<le> j"
  shows "js_le (sample_x mn step i) (sample_x mn step j)"
  using ij ok
proof (induction j)
  case 0
  then show ?case by (simp add: js_le_refl)
next
  case (Suc j)
  show ?case
  proof (cases "i = Suc j")
    case True
    then show ?thesis using Suc.prems by (simp add: js_le_refl)
  next
    case False
    then have "js_le (sample_x mn step i) (sample_x mn step j)"
      using Suc by simp
    moreover have "js_le (sample_x mn step j) (sample_x mn step (Suc j))"
    proof -
      have "sample_x mn step j \<noteq> NaN" "js_add (sample_x mn step j) step \<noteq> NaN"
        using Suc.prems(2)[rule_format, of j] Suc.prems(2)[rule_format, of "Suc j"]
        by (simp_all add: sample_x_Suc)
      then show ?thesis
        using js_le_add_pos[OF pos js_double_sample_x[OF dbl]] by (simp add: sample_x_Suc)
    qed
    ultimately show ?thesis by (rule js_le_trans)
  qed
qed

lemma sample_xs_sorted:
  assumes pos: "js_gt step (Fin 0)" and dbl: "js_double mn"
    and ok: "\<forall>k<n. sample_x mn step k \<noteq> NaN"
  shows "sorted_wrt js_le (sample_xs mn step n)"
proof -
  have "sorted_wrt (\<lambda>i j. js_le (sample_x mn step i) (sample_x mn step j)) [0..<n]"
  proof (rule sorted_wrt_mono_rel[OF _ sorted_wrt_upt])
    fix i j assume "i \<in> set [0..<n]" "j \<in> set [0..<n]" "i < j"
    then show "js_le (sample_x mn step i) (sample_x mn step j)"
      using sample_x_mono[OF pos dbl, of j i] ok by simp
  qed
  then show ?thesis by (simp add: sample_xs_def sorted_wrt_map)
qed

lemma px_emitted: "px ` set (emitted f p xs) \<subseteq> set xs"
  by (induction xs arbitrary: p) (auto split: option.splits if_splits)

lemma sorted_emitted:
  assumes "sorted_wrt R xs" and "\<forall>x\<in>set xs. R x x"
  shows "sorted_wrt (\<lambda>p q. R (px p) (px q)) (emitted f p xs)"
  using assms
proof (induction xs arbitrary: p)
  case Nil
  show ?case by simp
next
  case (Cons x xs)
  have rest: "sorted_wrt (\<lambda>p q. R (px p) (px q)) (emitted f p' xs)" for p'
    using Cons by simp
  have after: "\<forall>q\<in>set (emitted f p' xs). R x (px q)" for p'
    using px_emitted[of f p' xs] Cons.prems(1) by auto
  have "R x x" using Cons.prems(2) by simp
  then show ?case using rest after
    by (auto simp add: sorted_wrt_append split: option.splits)
qed

text \<open>
  C5 as stated fails: the \<^verbatim>\<open>NaN\<close> point that marks a break is pushed at the \<open>x\<close> of
  the valid point that follows it. \<^verbatim>\<open>generatePoints("x", -1000000, 1000000, 1500000)\<close>,
  with a step above zero, returns three points of which the last two are both at
  \<open>x = 500000\<close>.
\<close>

theorem generatePoints_x_not_strict:
  "generatePoints mathjs_sample ''x'' (Fin (- 1000000)) (Fin 1000000) (Fin 1500000) =
     Some (Inr break_run) \<and>
   js_gt (Fin 1500000) (Fin 0) \<and>
   \<not> sorted_wrt (\<lambda>p q. js_lt (px p) (px q)) break_run"
  using generatePoints_break_run by (simp add: break_run_def js_gt_def)

text \<open>
  C5, amended. For every expression, \<open>xMin\<close>, \<open>xMax\<close> and step above zero, the \<open>x\<close>
  coordinates of the list that \<^verbatim>\<open>generatePoints\<close> returns never decrease. (\<open>xMin\<close> is a
  JavaScript number, so a double when finite.)
\<close>

theorem generatePoints_x_nondecreasing:
  assumes ret: "generatePoints math expression mn mx step = Some (Inr ps)"
    and pos: "js_gt step (Fin 0)"
    and dbl: "js_double mn"
  shows "sorted_wrt (\<lambda>p q. js_le (px p) (px q)) ps"
proof -
  have "\<exists>n. ps = visited math expression mn step n \<and> (\<forall>k<n. sample_x mn step k \<noteq> NaN)"
  proof (cases "trim expression = []")
    case True
    with ret have "ps = visited math expression mn step 0"
      by (simp add: generatePoints_def visited_def sample_xs_def)
    then show ?thesis by (intro exI[of _ 0]) simp
  next
    case False
    with ret have "gp_loop math expression mx step mn [] None = Some (Inr ps)"
      by (simp add: generatePoints_def)
    from gp_loop_refines[OF this] obtain n where
      n: "ps = visited math expression mn step n" "\<forall>k<n. guard math expression mn mx step k"
      by auto
    have "\<forall>k<n. sample_x mn step k \<noteq> NaN"
      using n(2) js_le_not_NaN by (auto simp add: guard_def)
    with n(1) show ?thesis by blast
  qed
  then obtain n where n: "ps = visited math expression mn step n"
    "\<forall>k<n. sample_x mn step k \<noteq> NaN"
    by blast
  have refl: "\<forall>x\<in>set (sample_xs mn step n). js_le x x"
    using n(2) by (auto simp add: sample_xs_def js_le_refl)
  show ?thesis
    unfolding n(1) visited_def
    by (rule sorted_emitted[OF sample_xs_sorted[OF pos dbl n(2)] refl])
qed

theorem generatePoints_x_nondecreasing_witness:
  "generatePoints mathjs_sample ''x'' (Fin (- 1000000)) (Fin 1000000) (Fin 1500000) =
     Some (Inr break_run) \<and>
   js_gt (Fin 1500000) (Fin 0) \<and> js_double (Fin (- 1000000)) \<and>
   sorted_wrt (\<lambda>p q. js_le (px p) (px q)) break_run"
proof -
  have pos: "js_gt (Fin 1500000) (Fin 0)" by (simp add: js_gt_def)
  have dbl: "js_double (Fin (- 1000000))" by (simp add: js_double_def)
  from generatePoints_x_nondecreasing[OF generatePoints_break_run pos dbl]
    generatePoints_break_run pos dbl
  show ?thesis by simp
qed

section \<open>The cap\<close>

text \<open>
  The loop need not end: with a step of zero on an expression that never yields a
  point, \<^verbatim>\<open>generatePoints("x2", 0, 1, 0)\<close> never returns.
\<close>

lemma gp_loop_diverges:
  "gp_loop mathjs_sample ''x2'' (Fin 1) (Fin 0) (Fin 0) [] prev = None"
proof (rule ccontr)
  assume "gp_loop mathjs_sample ''x2'' (Fin 1) (Fin 0) (Fin 0) [] prev \<noteq> None"
  then obtain r where r: "gp_loop mathjs_sample ''x2'' (Fin 1) (Fin 0) (Fin 0) [] prev = Some r"
    by auto
  have "\<not> (mathjs_sample = mathjs_sample \<and> ''x2'' = ''x2'' \<and> Fin 1 = Fin 1 \<and> Fin 0 = Fin 0
          \<and> Fin 0 = Fin 0 \<and> ([] :: point list) = [])"
    by (rule gp_loop_induct[OF r, where P = "\<lambda>math e mx step x ps prev r.
          \<not> (math = mathjs_sample \<and> e = ''x2'' \<and> mx = Fin 1 \<and> step = Fin 0 \<and> x = Fin 0
             \<and> ps = [])"])
      (fastforce simp add: gp_body_eq evaluate_y_x2 in_range_def js_le_def MAX_POINTS_def)
  then show False by simp
qed

lemma generatePoints_diverges:
  "generatePoints mathjs_sample ''x2'' (Fin 0) (Fin 1) (Fin 0) = None"
  by (simp add: generatePoints_def trim_def is_space_def gp_loop_diverges)

text \<open>
  Nor need it end with finite bounds and a step above zero: \<open>1e16 + 1\<close> rounds to
  \<open>1e16\<close>, so \<^verbatim>\<open>generatePoints("x2", 1e16, 1e16 + 10, 1)\<close> stays at \<open>x = 1e16\<close> and
  never returns.
\<close>

lemma expo_1e16: "expo 10000000000000001 = 53"
proof (rule expo_eqI)
  have p54: "(2::real) powr of_int (53 + 1) = 2 ^ 54"
    using powr_real_of_int[of "2::real" 54] by simp
  have p53: "(2::real) powr of_int 53 = 2 ^ 53"
    using powr_real_of_int[of "2::real" 53] by simp
  show "(10000000000000001::real) < 2 powr of_int (53 + 1)" unfolding p54 by simp
  show "2 powr of_int 53 \<le> (10000000000000001::real) \<or> (53::int) = - 1022"
    unfolding p53 by simp
qed simp_all

lemma rne_tie: "rne (10000000000000001 / 2) = 5000000000000000"
proof -
  have "\<lfloor>(10000000000000001::real) / 2\<rfloor> = 5000000000000000"
    by (simp add: floor_eq_iff)
  then show ?thesis by (simp add: rne_def Let_def)
qed

lemma fl_1e16_plus_1: "fl 10000000000000001 = Fin 10000000000000000"
proof -
  have u: "ulp 10000000000000001 = 2"
    using powr_real_of_int[of "2::real" 1] by (simp add: ulp_def expo_1e16)
  have "fl_mag 10000000000000001 = 10000000000000000"
    by (simp add: fl_mag_def u rne_tie)
  then show ?thesis by (simp add: fl_pos)
qed

lemma js_add_stuck: "js_add (Fin 10000000000000000) (Fin 1) = Fin 10000000000000000"
  by (simp add: fl_1e16_plus_1)

lemma sample_x_stuck_1e16: "sample_x (Fin 10000000000000000) (Fin 1) k = Fin 10000000000000000"
  by (induction k) (simp_all add: sample_x_def fl_1e16_plus_1)

lemma guard_stuck:
  "guard mathjs_sample ''x2'' (Fin 10000000000000000) (Fin 10000000000000010) (Fin 1) k"
  by (simp add: guard_def sample_x_stuck_1e16 visited_def emitted_none evaluate_y_x2 in_range_def
        MAX_POINTS_def)

lemma generatePoints_stuck:
  "generatePoints mathjs_sample ''x2'' (Fin 10000000000000000) (Fin 10000000000000010) (Fin 1)
     = None"
proof -
  have "trim ''x2'' \<noteq> []" by (simp add: trim_def is_space_def)
  then show ?thesis
    using gp_loop_never_returns[of mathjs_sample "''x2''" "Fin 10000000000000000"
        "Fin 10000000000000010" "Fin 1"] guard_stuck
    by (simp add: generatePoints_def)
qed

text \<open>No run returns more than \<open>MAX_POINTS + 1\<close> points, and none raises.\<close>

lemma length_emitted_one: "length (emitted f p [x]) \<le> 2"
  by (simp split: option.splits)

lemma generatePoints_length_bound:
  assumes "generatePoints math e mn mx step = Some r"
  shows "\<exists>ps. r = Inr ps \<and> length ps \<le> MAX_POINTS + 1"
proof (cases "trim e = []")
  case True
  with assms show ?thesis by (auto simp add: generatePoints_def)
next
  case False
  with assms have ret: "gp_loop math e mx step mn [] None = Some r"
    by (simp add: generatePoints_def)
  have pres: "length (ps @ emitted (evaluate_y math e) prev [x]) \<le> MAX_POINTS + 1"
    if "length ps < MAX_POINTS" for x ps prev
    using that length_emitted_one[of "evaluate_y math e" prev x] by simp
  have I0: "length ([] :: point list) \<le> MAX_POINTS + 1" by simp
  from gp_loop_rule[where I = "\<lambda>x ps prev. length ps \<le> MAX_POINTS + 1", OF ret I0 pres]
  show ?thesis by blast
qed

subsection \<open>A run of 1001 points\<close>

lemma trim_jump_expression: "trim jump_expression \<noteq> []"
  by (simp add: trim_def is_space_def jump_expression_def)

lemma evaluate_y_jump:
  "evaluate_y mathjs_sample jump_expression (Fin r) =
     (if r < 999 then Fin (- 600000) else Fin 600000)"
  by (simp add: evaluate_y_def evaluateExpression_def try_catch_def mathjs_sample_def
        jump_expression_def)

text \<open>The iteration at \<open>x = 999\<close> starts with 999 points, below the cap, and pushes two.\<close>

lemma gp_loop_jump_last:
  assumes "length ps = 999"
  shows "\<exists>r. gp_loop mathjs_sample jump_expression (Fin 999) (Fin 1) (Fin 999) ps
                (Some (Fin (- 600000))) = Some (Inr r) \<and> length r = 1001"
  using assms
  by (simp add: gp_loop.simps[of _ _ _ _ "Fin 999"] gp_loop.simps[of _ _ _ _ "Fin 1000"]
        gp_body_eq evaluate_y_jump js_le_def js_gt_def js_sub_def in_range_def MAX_POINTS_def)

lemma fl_count: "k < 999 \<Longrightarrow> fl (1 + real k) = Fin (1 + real k)"
  using fl_nat[of "Suc k"] by simp

lemma gp_loop_jump_run:
  assumes "k + d = 999" and "length ps = k"
    and "prev = (if k = 0 then None else Some (Fin (- 600000)))"
  shows "\<exists>r. gp_loop mathjs_sample jump_expression (Fin 999) (Fin 1) (Fin (real k)) ps prev
           = Some (Inr r) \<and> length r = 1001"
  using assms
proof (induction d arbitrary: k ps prev)
  case 0
  then show ?case using gp_loop_jump_last[of ps] by simp
next
  case (Suc d)
  let ?ps = "ps @ [\<lparr>px = Fin (real k), py = Fin (- 600000)\<rparr>]"
  have k: "k < 999" using Suc.prems by simp
  have "\<exists>r. gp_loop mathjs_sample jump_expression (Fin 999) (Fin 1) (Fin (real (Suc k))) ?ps
           (Some (Fin (- 600000))) = Some (Inr r) \<and> length r = 1001"
    by (rule Suc.IH) (use Suc.prems in simp_all)
  moreover have "gp_loop mathjs_sample jump_expression (Fin 999) (Fin 1) (Fin (real k)) ps prev =
     gp_loop mathjs_sample jump_expression (Fin 999) (Fin 1) (Fin (real (Suc k))) ?ps
       (Some (Fin (- 600000)))"
    using k Suc.prems(2,3)
    by (subst gp_loop.simps)
      (simp add: gp_body_eq evaluate_y_jump js_le_def js_gt_def js_sub_def in_range_def
        MAX_POINTS_def fl_count add.commute)
  ultimately show ?case by simp
qed

text \<open>
  C1. The claim is that \<^verbatim>\<open>generatePoints\<close> never returns more than 1000 points. The
  loop tests \<^verbatim>\<open>points.length < MAX_POINTS\<close> before an iteration, and an iteration that
  detects a jump pushes two points, so a run that reaches 999 points and then meets a
  jump returns 1001:
  \<^verbatim>\<open>generatePoints("x < 999 ? -600000 : 600000", 0, 999, 1)\<close> returns a list of
  length 1001.
\<close>

theorem generatePoints_exceeds_cap:
  "(case generatePoints mathjs_sample ''x < 999 ? -600000 : 600000'' (Fin 0) (Fin 999) (Fin 1) of
      Some (Inr ps) \<Rightarrow> length ps = 1001
    | _ \<Rightarrow> False)"
proof -
  from gp_loop_jump_run[of 0 999 "[]" None]
  obtain r where
    "gp_loop mathjs_sample jump_expression (Fin 999) (Fin 1) (Fin 0) [] None = Some (Inr r)"
    "length r = 1001" by auto
  then show ?thesis
    using trim_jump_expression by (simp add: generatePoints_def jump_expression_def)
qed

section \<open>The derivative estimator\<close>

text \<open>
  The handler of \<^verbatim>\<open>calculateDerivative\<close> is never entered, since \<^verbatim>\<open>evaluateExpression\<close>
  does not raise: the result is always the central difference of the two numbers it
  got, and it is never \<^verbatim>\<open>null\<close>.
\<close>

lemma calculateDerivative_h_eq:
  "calculateDerivative_h math e x h =
     Inr (Some (js_div (js_sub (evaluate_y math e (js_add x h)) (evaluate_y math e (js_sub x h)))
                  (js_mul (Fin 2) h)))"
  by (simp add: calculateDerivative_h_def evaluateExpression_Inr try_catch_def)

lemma calculateDerivative_not_null: "calculateDerivative math e x \<noteq> Inr None"
  by (simp add: calculateDerivative_def calculateDerivative_h_eq)

text \<open>
  C4. The claim is that the estimator returns \<^verbatim>\<open>null\<close>, not \<^verbatim>\<open>NaN\<close>, when one of its two
  evaluations fails. On \<^verbatim>\<open>x2\<close>, whose evaluation fails at every \<open>x\<close>,
  \<^verbatim>\<open>calculateDerivative("x2", 1)\<close> returns \<^verbatim>\<open>NaN\<close>.
\<close>

theorem calculateDerivative_failure_is_NaN:
  "calculateDerivative mathjs_sample ''x2'' (Fin 1) = Inr (Some NaN)"
  by (simp add: calculateDerivative_def calculateDerivative_h_eq evaluate_y_x2 js_sub_def)

section \<open>The validator rewrites, the evaluator does not\<close>








section \<open>Pixels and graph coordinates\<close>

text \<open>
  C6. On a canvas of positive width and height and bounds of positive extent,
  \<^verbatim>\<open>canvasToGraphCoords\<close> (pixel to graph) and \<^verbatim>\<open>scaleX\<close>, \<^verbatim>\<open>scaleY\<close> (graph to pixel)
  are inverse to each other: mapping a pixel to the graph and back returns the pixel
  (exactly, in exact arithmetic), and so does the other way round; and the \<open>y\<close> axis is
  inverted, the pixel \<open>y\<close> getting smaller as the graph \<open>y\<close> gets larger.
\<close>

theorem pixel_graph_roundtrip:
  assumes "0 < width sz" and "0 < height sz" and "xMin b < xMax b" and "yMin b < yMax b"
  shows "scaleX sz (vx (canvasToGraphCoords sz canvasX canvasY b)) b = canvasX \<and>
         scaleY sz (vy (canvasToGraphCoords sz canvasX canvasY b)) b = canvasY \<and>
         canvasToGraphCoords sz (scaleX sz x b) (scaleY sz y b) b = \<lparr>vx = x, vy = y\<rparr> \<and>
         (y < y' \<longleftrightarrow> scaleY sz y' b < scaleY sz y b)"
proof -
  have w: "width sz \<noteq> 0" and h: "height sz \<noteq> 0" and dx: "xMax b - xMin b \<noteq> 0"
    and dy: "yMax b - yMin b \<noteq> 0"
    using assms by simp_all
  have 1: "scaleX sz (vx (canvasToGraphCoords sz canvasX canvasY b)) b = canvasX"
    using w dx by (simp add: scaleX_def canvasToGraphCoords_def)
  have 2: "scaleY sz (vy (canvasToGraphCoords sz canvasX canvasY b)) b = canvasY"
    using h dy by (simp add: scaleY_def canvasToGraphCoords_def field_simps)
  have 3: "canvasToGraphCoords sz (scaleX sz x b) (scaleY sz y b) b = \<lparr>vx = x, vy = y\<rparr>"
    using w h dx dy by (simp add: scaleX_def scaleY_def canvasToGraphCoords_def field_simps)
  have 4: "y < y' \<longleftrightarrow> scaleY sz y' b < scaleY sz y b"
    using assms(2,4) by (simp add: scaleY_def divide_strict_right_mono divide_less_cancel)
  from 1 2 3 4 show ?thesis by blast
qed

theorem pixel_graph_roundtrip_witness:
  "(0::real) < width \<lparr>width = 800, height = 600\<rparr> \<and>
   (0::real) < height \<lparr>width = 800, height = 600\<rparr> \<and>
   xMin \<lparr>xMin = - 10, xMax = 10, yMin = - 15 / 2, yMax = 15 / 2\<rparr>
     < xMax \<lparr>xMin = - 10, xMax = 10, yMin = - 15 / 2, yMax = 15 / 2\<rparr> \<and>
   yMin \<lparr>xMin = - 10, xMax = 10, yMin = - 15 / 2, yMax = 15 / 2\<rparr>
     < yMax \<lparr>xMin = - 10, xMax = 10, yMin = - 15 / 2, yMax = 15 / 2\<rparr> \<and>
   canvasToGraphCoords \<lparr>width = 800, height = 600\<rparr> 200 150
     \<lparr>xMin = - 10, xMax = 10, yMin = - 15 / 2, yMax = 15 / 2\<rparr> = \<lparr>vx = - 5, vy = 15 / 4\<rparr> \<and>
   scaleX \<lparr>width = 800, height = 600\<rparr> (- 5)
     \<lparr>xMin = - 10, xMax = 10, yMin = - 15 / 2, yMax = 15 / 2\<rparr> = 200 \<and>
   scaleY \<lparr>width = 800, height = 600\<rparr> (15 / 4)
     \<lparr>xMin = - 10, xMax = 10, yMin = - 15 / 2, yMax = 15 / 2\<rparr> = 150 \<and>
   scaleY \<lparr>width = 800, height = 600\<rparr> 1
     \<lparr>xMin = - 10, xMax = 10, yMin = - 15 / 2, yMax = 15 / 2\<rparr>
     < scaleY \<lparr>width = 800, height = 600\<rparr> 0
         \<lparr>xMin = - 10, xMax = 10, yMin = - 15 / 2, yMax = 15 / 2\<rparr>"
proof -
  let ?sz = "\<lparr>width = 800, height = 600\<rparr>"
  let ?b = "\<lparr>xMin = - 10, xMax = 10, yMin = - 15 / 2, yMax = 15 / 2\<rparr>"
  have h: "0 < width ?sz" "0 < height ?sz" "xMin ?b < xMax ?b" "yMin ?b < yMax ?b"
    by simp_all
  have g: "canvasToGraphCoords ?sz 200 150 ?b = \<lparr>vx = - 5, vy = 15 / 4\<rparr>"
    by (simp add: canvasToGraphCoords_def)
  from pixel_graph_roundtrip[OF h, of 200 150 0 0 1] h g
  show ?thesis by simp
qed

section \<open>Zoom and pan\<close>







text \<open>
  Horizontally, the graph point under the cursor stays under it during a drag exactly
  when the cursor did not move or the zoom is \<open>1\<close>: the pan multiplies the pixel delta
  by \<open>20 * zoom / width\<close>, where one pixel is \<open>20 / (zoom * width)\<close> graph units.
\<close>

lemma pan_anchor_x:
  assumes "0 < width sz" and "0 < zoom vp"
  shows "vx (graph_under sz (pan_viewport sz vp start (center vp) client) client) =
         vx (graph_under sz vp start) \<longleftrightarrow> fst client = fst start \<or> zoom vp = 1"
proof -
  let ?z = "zoom vp" and ?w = "width sz" and ?d = "fst client - fst start"
  have "vx (graph_under sz (pan_viewport sz vp start (center vp) client) client) -
        vx (graph_under sz vp start) = ?d * 20 / ?w * (1 / ?z - ?z)"
    using assms
    by (simp add: graph_under_def canvasToGraphCoords_def calculateBounds_def pan_viewport_def
          Let_def field_simps)
  moreover have "?d * 20 / ?w * (1 / ?z - ?z) = 0 \<longleftrightarrow> ?d = 0 \<or> ?z = 1"
  proof -
    have "1 / ?z - ?z = 0 \<longleftrightarrow> ?z = 1"
    proof
      assume "1 / ?z - ?z = 0"
      then have "?z * ?z = 1" using assms(2) by (simp add: field_simps)
      then have "(?z - 1) * (?z + 1) = 0" by (simp add: algebra_simps)
      then show "?z = 1" using assms(2) by auto
    qed simp
    then show ?thesis using assms(1) by auto
  qed
  ultimately show ?thesis by (metis eq_iff_diff_eq_0)
qed

text \<open>
  C8. The claim is that the graph point under the cursor at the start of a drag is
  under the cursor at its end, for every zoom in \<open>[0.5, 2.0]\<close>. On the initial page
  (800 by 600 pixels, centre at the origin) zoomed to \<open>2\<close>, the point under the pixel
  \<open>(400, 300)\<close> is the origin; after a drag from there to \<open>(500, 300)\<close> the point under
  the cursor is \<open>(-3.75, 0)\<close>.
\<close>

theorem pan_not_anchored:
  "graph_under (page_size (run [ZoomChange 2] initial_page))
     (page_viewport (run [ZoomChange 2] initial_page)) (400, 300) = \<lparr>vx = 0, vy = 0\<rparr> \<and>
   graph_under (page_size (run [ZoomChange 2, MouseDown 400 300, MouseMove 500 300] initial_page))
     (page_viewport (run [ZoomChange 2, MouseDown 400 300, MouseMove 500 300] initial_page))
     (500, 300) = \<lparr>vx = - (15 / 4), vy = 0\<rparr>"
  by (simp add: run_def initial_page_def handleZoomChange_def setZoomLevel_def
        handleMouseDown_def handleMouseMove_def handleViewportChange_def pan_viewport_def
        graph_under_def canvasToGraphCoords_def calculateBounds_def Let_def)

end
